theory Spec2Isabelle
  imports Main
begin

section \<open>Data model\<close>

text \<open>
  The token kinds that \<^verbatim>\<open>parser.py\<close> refers to through the module \<^verbatim>\<open>token_kinds\<close>.
  The kinds \<^verbatim>\<open>token_kinds.plus\<close> and \<^verbatim>\<open>token_kinds.identifier\<close> are written
  \<open>plus_kind\<close> and \<open>identifier_kind\<close>, the plain names being taken.
\<close>

datatype token_kind =
    number | identifier_kind
  | int_kw | main | void_kw | bool_kw | char_kw | short_kw | long_kw
  | signed_kw | unsigned_kw | return_kw | if_kw
  | open_paren | close_paren | open_brack | close_brack
  | open_sq_brack | close_sq_brack
  | comma | semicolon
  | plus_kind | star | slash | twoequals | notequal | equals | amp

text \<open>A token: its kind and its literal content (\<^verbatim>\<open>tokens.Token\<close>).\<close>

datatype Token = Token (kind: token_kind) (content: string)

text \<open>
  Modelled from the spec: the module \<^verbatim>\<open>ctypes\<close> and the classes \<^verbatim>\<open>PointerCType\<close>,
  \<^verbatim>\<open>ArrayCType\<close> of \<^verbatim>\<open>il_gen\<close> are not part of the parser's source. The spec gives the
  closed set \<open>Void | Bool | Char | Short | Int | Long\<close>, each with a signedness flag that
  is signed by default, and the two constructors pointer-to and array-of.
\<close>

datatype base_type = void | bool_t | char | short | integer | longint

datatype CType =
    BaseCType base_type (is_signed: bool)
  | PointerCType CType
  | ArrayCType CType int

fun to_unsigned :: "CType \<Rightarrow> CType" where
  "to_unsigned (BaseCType b s) = BaseCType b False"
| "to_unsigned (PointerCType c) = PointerCType c"
| "to_unsigned (ArrayCType c n) = ArrayCType c n"

text \<open>The nodes of the tree (\<^verbatim>\<open>tree.*Node\<close>), with the payload the parser gives each.\<close>

datatype Node =
    MainNode Node
  | CompoundNode "Node list"
  | ReturnNode Node Token
  | IfStatementNode Node Node
  | ExprStatementNode Node
  | DeclarationNode Token CType
  | NumberNode Token
  | IdentifierNode Token
  | BinaryOperatorNode Node Token Node
  | AddrOfNode Node Token
  | DerefNode Node Token
  | FunctionCallNode Node "Node list"
  | ParenExprNode Node

text \<open>
  Modelled from the spec: the class \<^verbatim>\<open>errors.ParserError\<close> is not part of the parser's
  source. The spec gives its fields: a message, a kind tag \<open>AT | GOT | AFTER\<close>, the
  token index of the failure, and \<open>amount_parsed\<close>, the number of tokens consumed before
  the failing token, which the constructor takes from the index it is given.
\<close>

datatype message_type = AT | GOT | AFTER

record parser_error =
  message :: string
  position_index :: nat
  error_kind :: message_type
  amount_parsed :: nat

definition ParserError :: "string \<Rightarrow> nat \<Rightarrow> message_type \<Rightarrow> parser_error" where
  "ParserError descrip index mt =
     \<lparr>message = descrip, position_index = index, error_kind = mt, amount_parsed = index\<rparr>"

text \<open>
  What a call can raise: a \<open>ParserError\<close>, which the parser catches where it has
  another alternative to try, and the \<open>IndexError\<close> of a list read out of range, the
  \<open>KeyError\<close> of a dictionary read and the \<open>ValueError\<close> of \<^verbatim>\<open>int\<close>, which nothing in
  the parser catches.
\<close>

datatype exc = PErr parser_error | IndexError | KeyError | ValueError

section \<open>The expression stack\<close>

text \<open>
  An item of the parsing stack is a token or a node, with the number of tokens it stands
  for (the named tuple \<^verbatim>\<open>StackItem(item, length)\<close>). The stack is a list in Python's
  order: the bottom is element 0 and the top is the last element.
\<close>

datatype entry = Tok Token | Nd Node

datatype StackItem = StackItem (item: entry) (length_of: nat)

fun is_Token :: "entry \<Rightarrow> bool" where
  "is_Token (Tok t) = True"
| "is_Token (Nd n) = False"

fun is_Node :: "entry \<Rightarrow> bool" where
  "is_Node (Nd n) = True"
| "is_Node (Tok t) = False"

text \<open>\<^verbatim>\<open>isinstance(e, Token) and e.kind == k\<close>\<close>

fun is_kind :: "entry \<Rightarrow> token_kind \<Rightarrow> bool" where
  "is_kind (Tok t) k = (kind t = k)"
| "is_kind (Nd n) k = False"

text \<open>\<^verbatim>\<open>isinstance(e, Token) and e.kind in d\<close>, for a dictionary \<open>d\<close>\<close>

fun is_kind_in :: "entry \<Rightarrow> (token_kind \<rightharpoonup> 'a) \<Rightarrow> bool" where
  "is_kind_in (Tok t) d = (d (kind t) \<noteq> None)"
| "is_kind_in (Nd n) d = False"

text \<open>
  The token of an entry known to be a token and the node of an entry known to be a node:
  the parser reads them only behind an \<^verbatim>\<open>isinstance\<close> test.
\<close>

fun the_Token :: "entry \<Rightarrow> Token" where
  "the_Token (Tok t) = t"
| "the_Token (Nd n) = Token number []"

fun the_Node :: "entry \<Rightarrow> Node" where
  "the_Node (Nd n) = n"
| "the_Node (Tok t) = NumberNode t"

text \<open>
  The read \<^verbatim>\<open>xs[i]\<close> of a Python list of length \<open>n\<close>: the element \<open>i\<close> for
  \<open>0 \<le> i < n\<close>, the element \<open>n + i\<close> for \<open>-n \<le> i < 0\<close>, and \<open>IndexError\<close> for
  every other \<open>i\<close>.
\<close>

definition py_index :: "'a list \<Rightarrow> int \<Rightarrow> exc + 'a" where
  "py_index xs i =
     (if 0 \<le> i \<and> i < int (length xs) then Inr (xs ! nat i)
      else if i < 0 \<and> - int (length xs) \<le> i then Inr (xs ! nat (int (length xs) + i))
      else Inl IndexError)"

text \<open>\<^verbatim>\<open>stack[-k]\<close> where the code has checked that the stack has \<open>k\<close> elements.\<close>

definition from_top :: "'a list \<Rightarrow> nat \<Rightarrow> 'a" where
  "from_top xs k = xs ! (length xs - k)"

text \<open>\<^verbatim>\<open>del stack[-k:]\<close>, which empties a stack of fewer than \<open>k\<close> elements.\<close>

definition del_top :: "'a list \<Rightarrow> nat \<Rightarrow> 'a list" where
  "del_top xs k = take (length xs - k) xs"

text \<open>\<^verbatim>\<open>stack[-k:]\<close>, for \<open>k > 0\<close>\<close>

definition top_slice :: "'a list \<Rightarrow> nat \<Rightarrow> 'a list" where
  "top_slice xs k = drop (length xs - k) xs"

section \<open>Function calls on the stack\<close>

text \<open>
  The \<^verbatim>\<open>while True\<close> loop of \<^verbatim>\<open>match_function_call\<close>, on the index \<open>i\<close> (negative,
  counted from the top) and the arguments collected so far. Each read \<^verbatim>\<open>stack[i]\<close> is
  a \<open>py_index\<close>; the loop's \<^verbatim>\<open>except KeyError\<close> catches nothing that a list read
  raises, so an \<open>IndexError\<close> leaves the function. The result \<open>Inr None\<close> is the
  return value \<^verbatim>\<open>None\<close>.
\<close>

function match_function_call_loop ::
  "StackItem list \<Rightarrow> int \<Rightarrow> StackItem list \<Rightarrow> exc + (StackItem \<times> StackItem list) option"
where
  "match_function_call_loop stack i args =
     (case py_index stack i of
        Inl e \<Rightarrow> Inl e
      | Inr si \<Rightarrow>
          if is_Node (item si) then
            (let args' = args @ [si]; i' = i - 1 in
             case py_index stack i' of
               Inl e \<Rightarrow> Inl e
             | Inr sj \<Rightarrow>
                 if is_kind (item sj) comma then
                   match_function_call_loop stack (i' - 1) args'
                 else if is_kind (item sj) open_paren then
                   (case py_index stack (i' - 1) of
                      Inl e \<Rightarrow> Inl e
                    | Inr sk \<Rightarrow>
                        if is_Node (item sk) then Inr (Some (sk, rev args'))
                        else Inr None)
                 else Inr None)
          else Inr None)"
  by pat_completeness auto
termination
  by (relation "measure (\<lambda>(stack, i, args). nat (i + int (length stack) + 2))")
     (auto simp: py_index_def Let_def split: if_splits)

text \<open>
  \<^verbatim>\<open>match_function_call\<close>: the top of the stack must be \<open>)\<close>; then either \<open>EXPR (\<close>
  is below it (no arguments), or the loop collects the arguments. Behind the test
  \<^verbatim>\<open>len(stack) < 3\<close> the reads at \<open>-1\<close>, \<open>-2\<close> and \<open>-3\<close> are in range.
\<close>

definition match_function_call ::
  "StackItem list \<Rightarrow> exc + (StackItem \<times> StackItem list) option" where
  "match_function_call stack =
     (if length stack < 3 then Inr None
      else if \<not> is_kind (item (from_top stack 1)) close_paren then Inr None
      else if is_kind (item (from_top stack 2)) open_paren
              \<and> is_Node (item (from_top stack 3))
           then Inr (Some (from_top stack 3, rev []))
      else match_function_call_loop stack (- 2) [])"

section \<open>The shift-reduce expression parser\<close>

text \<open>The dictionaries of \<^verbatim>\<open>parse_expression\<close>.\<close>

definition binary_operators :: "token_kind \<rightharpoonup> nat" where
  "binary_operators =
     [plus_kind \<mapsto> 11, star \<mapsto> 12, slash \<mapsto> 12, twoequals \<mapsto> 8, notequal \<mapsto> 8, equals \<mapsto> 1]"

definition unary_prefix_operators :: "token_kind \<rightharpoonup> (Node \<Rightarrow> Token \<Rightarrow> Node)" where
  "unary_prefix_operators = [amp \<mapsto> AddrOfNode, star \<mapsto> DerefNode]"

definition assignment_operators :: "token_kind set" where
  "assignment_operators = {equals}"

text \<open>The test of the binary-operator reduction (the third branch of the loop).\<close>

definition binary_reducible :: "Token list \<Rightarrow> StackItem list \<Rightarrow> nat \<Rightarrow> bool" where
  "binary_reducible tokens stack i =
     (length stack \<ge> 3 \<and> is_Node (item (from_top stack 1))
      \<and> is_kind_in (item (from_top stack 2)) binary_operators
      \<and> is_Node (item (from_top stack 3))
      \<and> \<not> (i < length tokens
            \<and> binary_operators (kind (tokens ! i)) \<noteq> None
            \<and> the (binary_operators (kind (tokens ! i)))
                > the (binary_operators (kind (the_Token (item (from_top stack 2))))))
      \<and> \<not> (i < length tokens \<and> kind (tokens ! i) = open_paren)
      \<and> \<not> (i < length tokens
            \<and> kind (the_Token (item (from_top stack 2))) \<in> assignment_operators
            \<and> kind (tokens ! i) \<in> assignment_operators))"

text \<open>The test of the unary-prefix reduction (the fourth branch).\<close>

definition unary_reducible :: "Token list \<Rightarrow> StackItem list \<Rightarrow> nat \<Rightarrow> bool" where
  "unary_reducible tokens stack i =
     (length stack \<ge> 2 \<and> is_Node (item (from_top stack 1))
      \<and> is_kind_in (item (from_top stack 2)) unary_prefix_operators
      \<and> \<not> (i < length tokens \<and> kind (tokens ! i) = open_paren))"

text \<open>The test of the parenthesis reduction (the sixth branch).\<close>

definition paren_reducible :: "StackItem list \<Rightarrow> bool" where
  "paren_reducible stack =
     (length stack \<ge> 3 \<and> is_kind (item (from_top stack 1)) close_paren
      \<and> is_Node (item (from_top stack 2))
      \<and> is_kind (item (from_top stack 3)) open_paren)"

text \<open>The token kinds that the loop shifts; at any other kind it stops.\<close>

definition shiftable :: "token_kind \<Rightarrow> bool" where
  "shiftable k =
     (\<not> (k \<noteq> number \<and> k \<noteq> identifier_kind \<and> k \<noteq> open_paren \<and> k \<noteq> close_paren
         \<and> k \<noteq> comma \<and> k \<noteq> amp \<and> binary_operators k = None))"

text \<open>The stack after each reduction.\<close>

definition reduce_number :: "StackItem list \<Rightarrow> StackItem list" where
  "reduce_number stack =
     stack[length stack - 1 := StackItem (Nd (NumberNode (the_Token (item (from_top stack 1))))) 1]"

definition reduce_identifier :: "StackItem list \<Rightarrow> StackItem list" where
  "reduce_identifier stack =
     stack[length stack - 1 :=
       StackItem (Nd (IdentifierNode (the_Token (item (from_top stack 1))))) 1]"

definition reduce_binary :: "StackItem list \<Rightarrow> StackItem list" where
  "reduce_binary stack =
     (let left_expr = from_top stack 3; right_expr = from_top stack 1;
          operator = from_top stack 2
      in del_top stack 3 @
         [StackItem
            (Nd (BinaryOperatorNode (the_Node (item left_expr)) (the_Token (item operator))
                   (the_Node (item right_expr))))
            (length_of left_expr + length_of operator + length_of right_expr)])"

definition reduce_unary :: "StackItem list \<Rightarrow> StackItem list" where
  "reduce_unary stack =
     (let expr = from_top stack 1; op = from_top stack 2;
          node = the (unary_prefix_operators (kind (the_Token (item op))))
      in del_top stack 2 @
         [StackItem (Nd (node (the_Node (item expr)) (the_Token (item op))))
            (1 + length_of expr)])"

definition reduce_function_call ::
  "StackItem list \<Rightarrow> StackItem \<Rightarrow> StackItem list \<Rightarrow> StackItem list" where
  "reduce_function_call stack func args =
     (let num_delete = (if args = [] then 3 else 2 + 2 * length args);
          size = sum_list (map length_of (top_slice stack num_delete));
          arg_items = map (\<lambda>x. the_Node (item x)) args
      in del_top stack num_delete @
         [StackItem (Nd (FunctionCallNode (the_Node (item func)) arg_items)) size])"

definition reduce_paren :: "StackItem list \<Rightarrow> StackItem list" where
  "reduce_paren stack =
     (let expr = from_top stack 2
      in del_top stack 3 @
         [StackItem (Nd (ParenExprNode (the_Node (item expr)))) (length_of expr + 2)])"

text \<open>
  The weight of a stack, for the termination of the loop below: a shift moves the index
  forward and adds one token to the stack; every reduction makes the stack shorter or
  turns a token of the stack into a node.
\<close>

lemma match_function_call_length:
  "match_function_call stack = Inr (Some r) \<Longrightarrow> 3 \<le> length stack"
  by (auto simp: match_function_call_def split: if_splits)

definition weight :: "StackItem list \<Rightarrow> nat" where
  "weight stack = length stack + length (filter (\<lambda>s. is_Token (item s)) stack)"

lemma filter_take_le: "length (filter P (take n xs)) \<le> length (filter P xs)"
proof -
  have "length (filter P xs) = length (filter P (take n xs)) + length (filter P (drop n xs))"
    by (metis append_take_drop_id filter_append length_append)
  then show ?thesis by simp
qed

lemma is_kind_is_Token: "is_kind e k \<Longrightarrow> is_Token e"
  by (cases e) auto

lemma weight_update_top:
  assumes "stack \<noteq> []" and "is_Token (item (from_top stack 1))" and "\<not> is_Token (item x)"
  shows "weight (stack[length stack - 1 := x]) < weight stack"
proof -
  obtain ys y where s: "stack = ys @ [y]"
    using assms(1) by (metis append_butlast_last_id)
  with assms show ?thesis by (simp add: weight_def from_top_def)
qed

lemma weight_del_top:
  assumes "2 \<le> k" and "2 \<le> length stack" and "\<not> is_Token (item x)"
  shows "weight (del_top stack k @ [x]) < weight stack"
proof -
  have "length (filter (\<lambda>s. is_Token (item s)) (take (length stack - k) stack))
          \<le> length (filter (\<lambda>s. is_Token (item s)) stack)"
    by (rule filter_take_le)
  with assms show ?thesis by (simp add: weight_def del_top_def)
qed

lemma weight_reduce_number:
  "stack \<noteq> [] \<Longrightarrow> is_kind (item (from_top stack 1)) k \<Longrightarrow> weight (reduce_number stack) < weight stack"
  unfolding reduce_number_def by (rule weight_update_top) (auto dest: is_kind_is_Token)

lemma weight_reduce_identifier:
  "stack \<noteq> [] \<Longrightarrow> is_kind (item (from_top stack 1)) k \<Longrightarrow> weight (reduce_identifier stack) < weight stack"
  unfolding reduce_identifier_def by (rule weight_update_top) (auto dest: is_kind_is_Token)

lemma weight_reduce_binary:
  "binary_reducible tokens stack i \<Longrightarrow> weight (reduce_binary stack) < weight stack"
  unfolding reduce_binary_def Let_def by (rule weight_del_top) (auto simp: binary_reducible_def)

lemma weight_reduce_unary:
  "unary_reducible tokens stack i \<Longrightarrow> weight (reduce_unary stack) < weight stack"
  unfolding reduce_unary_def Let_def by (rule weight_del_top) (auto simp: unary_reducible_def)

lemma weight_reduce_paren:
  "paren_reducible stack \<Longrightarrow> weight (reduce_paren stack) < weight stack"
  unfolding reduce_paren_def Let_def by (rule weight_del_top) (auto simp: paren_reducible_def)

lemma weight_reduce_function_call:
  "match_function_call stack = Inr (Some (func, args)) \<Longrightarrow>
     weight (reduce_function_call stack func args) < weight stack"
  unfolding reduce_function_call_def Let_def
  by (rule weight_del_top) (auto dest: match_function_call_length)

lemma weight_shift: "weight (stack @ [StackItem (Tok t) n]) = weight stack + 2"
  by (simp add: weight_def)

lemma weight_single: "weight [StackItem (Tok t) n] = 2" "weight [] = 0"
  by (simp_all add: weight_def)

text \<open>
  The \<^verbatim>\<open>while True\<close> loop of \<^verbatim>\<open>parse_expression\<close>, on the stack and the index \<open>i\<close>
  of the next token. The branches are tried in the order of the source; the last one
  stops (returning the stack) or shifts the next token. A read \<^verbatim>\<open>self.tokens[i]\<close> past
  the end of the token list raises \<open>IndexError\<close>.
\<close>

function expr_loop :: "Token list \<Rightarrow> StackItem list \<Rightarrow> nat \<Rightarrow> exc + StackItem list" where
  "expr_loop tokens stack i =
     (if stack \<noteq> [] \<and> is_kind (item (from_top stack 1)) number then
        expr_loop tokens (reduce_number stack) i
      else if stack \<noteq> [] \<and> is_kind (item (from_top stack 1)) identifier_kind then
        expr_loop tokens (reduce_identifier stack) i
      else if binary_reducible tokens stack i then
        expr_loop tokens (reduce_binary stack) i
      else if unary_reducible tokens stack i then
        expr_loop tokens (reduce_unary stack) i
      else
        (case match_function_call stack of
           Inl e \<Rightarrow> Inl e
         | Inr (Some (func, args)) \<Rightarrow> expr_loop tokens (reduce_function_call stack func args) i
         | Inr None \<Rightarrow>
             if paren_reducible stack then expr_loop tokens (reduce_paren stack) i
             else if i = length tokens then Inr stack
             else if i > length tokens then Inl IndexError
             else if \<not> shiftable (kind (tokens ! i)) then Inr stack
             else expr_loop tokens (stack @ [StackItem (Tok (tokens ! i)) 1]) (i + 1)))"
  by pat_completeness auto

termination
proof (relation "measure (\<lambda>(tokens, stack, i). 3 * (length tokens - i) + weight stack)",
    goal_cases)
  case 1
  show ?case by simp
next
  case (2 tokens stack i)
  then show ?case using weight_reduce_number[of stack number] by simp
next
  case (3 tokens stack i)
  then show ?case using weight_reduce_identifier[of stack identifier_kind] by simp
next
  case (4 tokens stack i)
  then show ?case using weight_reduce_binary[of tokens stack i] by simp
next
  case (5 tokens stack i)
  then show ?case using weight_reduce_unary[of tokens stack i] by simp
next
  case 6
  then show ?case
    by (auto dest: weight_reduce_function_call weight_reduce_paren simp: weight_shift weight_single)
next
  case 7
  then show ?case
    by (auto dest: weight_reduce_function_call weight_reduce_paren simp: weight_shift weight_single)
next
  case 8
  then show ?case
    by (auto dest: weight_reduce_function_call weight_reduce_paren simp: weight_shift weight_single)
qed

declare expr_loop.simps [simp del]

text \<open>
  \<^verbatim>\<open>parse_expression\<close>: run the loop from the empty stack; then the bottom of the
  stack decides.
\<close>

definition parse_expression :: "Token list \<Rightarrow> nat \<Rightarrow> exc + (Node \<times> nat)" where
  "parse_expression tokens index =
     (case expr_loop tokens [] index of
        Inl e \<Rightarrow> Inl e
      | Inr stack \<Rightarrow>
          if stack \<noteq> [] \<and> is_Node (item (stack ! 0))
          then Inr (the_Node (item (stack ! 0)), index + length_of (stack ! 0))
          else Inl (PErr (ParserError ''expected expression'' index GOT)))"

section \<open>The best error and the token tests\<close>

text \<open>
  \<^verbatim>\<open>_log_error\<close>, on the field \<open>best_error\<close> (\<open>None\<close> at the start of a parse): the
  new error replaces the retained one when there is none yet or when its
  \<open>amount_parsed\<close> is at least the retained one's.
\<close>

definition log_error :: "parser_error \<Rightarrow> parser_error option \<Rightarrow> parser_error option" where
  "log_error error best_error =
     (case best_error of
        None \<Rightarrow> Some error
      | Some best \<Rightarrow>
          if amount_parsed error \<ge> amount_parsed best then Some error else Some best)"

text \<open>\<^verbatim>\<open>_next_token_is\<close> and \<^verbatim>\<open>_match_token\<close>; the latter raises nothing but a \<open>ParserError\<close>.\<close>

definition next_token_is :: "Token list \<Rightarrow> nat \<Rightarrow> token_kind \<Rightarrow> bool" where
  "next_token_is tokens index k = (length tokens > index \<and> kind (tokens ! index) = k)"

definition match_token ::
  "Token list \<Rightarrow> nat \<Rightarrow> token_kind \<Rightarrow> string \<Rightarrow> message_type \<Rightarrow> parser_error + nat" where
  "match_token tokens index k msg mt =
     (if length tokens > index \<and> kind (tokens ! index) = k then Inr (index + 1)
      else Inl (ParserError msg index mt))"

definition expect_semicolon :: "Token list \<Rightarrow> nat \<Rightarrow> parser_error + nat" where
  "expect_semicolon tokens index =
     match_token tokens index semicolon ''expected semicolon'' AFTER"

section \<open>Declarations\<close>

text \<open>
  The dictionary \<^verbatim>\<open>type_tokens\<close>, in the order it is written; the types are signed until
  \<^verbatim>\<open>to_unsigned\<close> is applied.
\<close>

definition type_tokens :: "(token_kind \<times> CType) list" where
  "type_tokens =
     [(void_kw, BaseCType void True), (bool_kw, BaseCType bool_t True),
      (char_kw, BaseCType char True), (short_kw, BaseCType short True),
      (int_kw, BaseCType integer True), (long_kw, BaseCType longint True)]"

text \<open>
  \<^verbatim>\<open>_expect_type_name\<close>: every key of \<open>type_tokens\<close> but the last is tried, a failure
  being logged; the last key's match is returned or raised as it is.
\<close>

fun try_type_names ::
  "Token list \<Rightarrow> nat \<Rightarrow> token_kind list \<Rightarrow> parser_error option
     \<Rightarrow> nat option \<times> parser_error option" where
  "try_type_names tokens index [] be = (None, be)"
| "try_type_names tokens index (tok # toks) be =
     (case match_token tokens index tok ''expected type name'' GOT of
        Inr j \<Rightarrow> (Some j, be)
      | Inl e \<Rightarrow> try_type_names tokens index toks (log_error e be))"

definition expect_type_name ::
  "Token list \<Rightarrow> nat \<Rightarrow> parser_error option \<Rightarrow> (exc + nat) \<times> parser_error option" where
  "expect_type_name tokens index be =
     (let kinds = map fst type_tokens in
      case try_type_names tokens index (butlast kinds) be of
        (Some j, be') \<Rightarrow> (Inr j, be')
      | (None, be') \<Rightarrow>
          (case match_token tokens index (last kinds) ''expected type name'' GOT of
             Inr j \<Rightarrow> (Inr j, be')
           | Inl e \<Rightarrow> (Inl (PErr e), be')))"

text \<open>The loop of \<^verbatim>\<open>parse_declaration\<close> over the \<open>*\<close> tokens.\<close>

function pointer_stars :: "Token list \<Rightarrow> CType \<Rightarrow> nat \<Rightarrow> CType \<times> nat" where
  "pointer_stars tokens ctype index =
     (if next_token_is tokens index star
      then pointer_stars tokens (PointerCType ctype) (index + 1)
      else (ctype, index))"
  by pat_completeness auto
termination
  by (relation "measure (\<lambda>(tokens, ctype, index). length tokens - index)")
     (auto simp: next_token_is_def)

declare pointer_stars.simps [simp del]

text \<open>
  \<^verbatim>\<open>int(content)\<close> on the content of a number token, a non-empty string of decimal
  digits; on any other string the model raises \<open>ValueError\<close>.
\<close>

definition is_digit :: "char \<Rightarrow> bool" where
  "is_digit c = (48 \<le> (of_char c :: nat) \<and> (of_char c :: nat) \<le> 57)"

definition py_int :: "string \<Rightarrow> exc + int" where
  "py_int s =
     (if s \<noteq> [] \<and> list_all is_digit s
      then Inr (foldl (\<lambda>a c. 10 * a + (int (of_char c) - 48)) 0 s)
      else Inl ValueError)"

text \<open>
  The array suffix of \<^verbatim>\<open>parse_declaration\<close> (the \<^verbatim>\<open>if\<close> under ``Parse an array
  declaration''): the type and the index after it. When \<open>[\<close>, a number and \<open>]\<close> follow,
  the type is wrapped and the three tokens are consumed; otherwise both are unchanged.
\<close>

definition array_suffix :: "Token list \<Rightarrow> CType \<Rightarrow> nat \<Rightarrow> exc + CType \<times> nat" where
  "array_suffix tokens ctype index =
     (if next_token_is tokens index open_sq_brack
         \<and> next_token_is tokens (index + 1) number
         \<and> next_token_is tokens (index + 2) close_sq_brack
      then (case py_int (content (tokens ! (index + 1))) of
              Inl e \<Rightarrow> Inl e
            | Inr n \<Rightarrow> Inr (ArrayCType ctype n, index + 3))
      else Inr (ctype, index))"

text \<open>
  \<^verbatim>\<open>parse_declaration\<close>. The read \<^verbatim>\<open>self.tokens[index - 1]\<close> follows a successful match,
  so it is in range.
\<close>

definition parse_declaration ::
  "Token list \<Rightarrow> nat \<Rightarrow> parser_error option \<Rightarrow> (exc + Node \<times> nat) \<times> parser_error option"
where
  "parse_declaration tokens index be =
     (let (signed, index1) =
            (if next_token_is tokens index signed_kw then (True, index + 1)
             else if next_token_is tokens index unsigned_kw then (False, index + 1)
             else (True, index))
      in case expect_type_name tokens index1 be of
           (Inl e, be') \<Rightarrow> (Inl e, be')
         | (Inr index2, be') \<Rightarrow>
             (case map_of type_tokens (kind (tokens ! (index2 - 1))) of
                None \<Rightarrow> (Inl KeyError, be')
              | Some ctype0 \<Rightarrow>
                  (let ctype1 = (if \<not> signed then to_unsigned ctype0 else ctype0);
                       (ctype2, index3) = pointer_stars tokens ctype1 index2
                   in case match_token tokens index3 identifier_kind
                             ''expected identifier'' AFTER of
                        Inl e \<Rightarrow> (Inl (PErr e), be')
                      | Inr index4 \<Rightarrow>
                          (let variable_name = tokens ! (index4 - 1) in
                           case array_suffix tokens ctype2 index4 of
                             Inl e \<Rightarrow> (Inl e, be')
                           | Inr (ctype3, index5) \<Rightarrow>
                               (case expect_semicolon tokens index5 of
                                  Inl e \<Rightarrow> (Inl (PErr e), be')
                                | Inr index6 \<Rightarrow>
                                    (Inr (DeclarationNode variable_name ctype3, index6),
                                     be'))))))"

section \<open>Statements\<close>

text \<open>
  A message that quotes a piece of source text, as in \<^verbatim>\<open>"expected '{'"\<close>: the piece
  between two single quotes.
\<close>

definition quoted :: "string \<Rightarrow> string" where
  "quoted s = CHR 0x27 # s @ [CHR 0x27]"

text \<open>\<^verbatim>\<open>parse_return\<close> and \<^verbatim>\<open>parse_expr_statement\<close>; neither logs an error.\<close>

definition parse_return :: "Token list \<Rightarrow> nat \<Rightarrow> exc + Node \<times> nat" where
  "parse_return tokens index =
     (case match_token tokens index return_kw (''expected keyword '' @ quoted ''return'') GOT of
        Inl e \<Rightarrow> Inl (PErr e)
      | Inr index1 \<Rightarrow>
          (let return_kw_tok = tokens ! (index1 - 1) in
           case parse_expression tokens index1 of
             Inl e \<Rightarrow> Inl e
           | Inr (node, index2) \<Rightarrow>
               (case expect_semicolon tokens index2 of
                  Inl e \<Rightarrow> Inl (PErr e)
                | Inr index3 \<Rightarrow> Inr (ReturnNode node return_kw_tok, index3))))"

definition parse_expr_statement :: "Token list \<Rightarrow> nat \<Rightarrow> exc + Node \<times> nat" where
  "parse_expr_statement tokens index =
     (case parse_expression tokens index of
        Inl e \<Rightarrow> Inl e
      | Inr (node, index1) \<Rightarrow>
          (case expect_semicolon tokens index1 of
             Inl e \<Rightarrow> Inl (PErr e)
           | Inr index2 \<Rightarrow> Inr (ExprStatementNode node, index2)))"

text \<open>
  What a sub-parser returns on success lies past its starting index and within the token
  list (\<open>advances\<close>), or at least not before the starting index (\<open>reaches\<close>). The
  statement parser below terminates because of it.
\<close>

definition advances :: "nat \<Rightarrow> nat \<Rightarrow> (exc + 'a \<times> nat) \<Rightarrow> bool" where
  "advances len i r = (case r of Inl e \<Rightarrow> True | Inr (x, j) \<Rightarrow> i < j \<and> j \<le> len)"

lemma advances_simps [simp]:
  "advances len i (Inl e) = True"
  "advances len i (Inr (x, j)) = (i < j \<and> j \<le> len)"
  by (simp_all add: advances_def)

definition reaches :: "nat \<Rightarrow> (exc + 'a \<times> nat) \<Rightarrow> bool" where
  "reaches i r = (case r of Inl e \<Rightarrow> True | Inr (x, j) \<Rightarrow> i \<le> j)"

lemma reaches_simps [simp]:
  "reaches i (Inl e) = True"
  "reaches i (Inr (x, j)) = (i \<le> j)"
  by (simp_all add: reaches_def)

lemma match_token_Inr:
  "match_token tokens i k msg mt = Inr j \<Longrightarrow> j = i + 1 \<and> i < length tokens"
  by (auto simp: match_token_def split: if_splits)

lemma parse_expression_index: "parse_expression tokens i = Inr (n, j) \<Longrightarrow> i \<le> j"
  by (auto simp: parse_expression_def split: sum.splits if_splits)

lemma parse_return_advances: "advances (length tokens) i (parse_return tokens i)"
  by (auto simp: parse_return_def expect_semicolon_def Let_def split: sum.splits
        dest!: match_token_Inr parse_expression_index)

lemma parse_expr_statement_advances:
  "advances (length tokens) i (parse_expr_statement tokens i)"
  by (auto simp: parse_expr_statement_def expect_semicolon_def split: sum.splits
        dest!: match_token_Inr parse_expression_index)

lemma pointer_stars_index: "index \<le> snd (pointer_stars tokens ctype index)"
proof (induction tokens ctype index rule: pointer_stars.induct)
  case (1 tokens ctype index)
  show ?case
  proof (cases "next_token_is tokens index star")
    case True
    with 1 show ?thesis by (subst pointer_stars.simps) simp
  next
    case False
    then show ?thesis by (subst pointer_stars.simps) simp
  qed
qed

lemma try_type_names_Some:
  "try_type_names tokens i ks be = (Some j, be') \<Longrightarrow> j = i + 1 \<and> i < length tokens"
  by (induction ks arbitrary: be) (auto split: sum.splits dest: match_token_Inr)

lemma expect_type_name_Inr:
  "expect_type_name tokens i be = (Inr j, be') \<Longrightarrow> j = i + 1 \<and> i < length tokens"
  by (auto simp: expect_type_name_def Let_def split: prod.splits option.splits sum.splits
        dest: try_type_names_Some match_token_Inr)

lemma array_suffix_index: "array_suffix tokens c i = Inr (c', j) \<Longrightarrow> i \<le> j"
  by (auto simp: array_suffix_def split: if_splits sum.splits)

lemma parse_declaration_advances:
  "advances (length tokens) i (fst (parse_declaration tokens i be))"
proof -
  have ps: "pointer_stars tokens c k = (c', k') \<Longrightarrow> k \<le> k'" for c k c' k'
    using pointer_stars_index[of k tokens c] by simp
  obtain signed i1 where s:
    "(if next_token_is tokens i signed_kw then (True, i + 1)
      else if next_token_is tokens i unsigned_kw then (False, i + 1)
      else (True, i)) = (signed, i1)" and i1: "i \<le> i1"
    by (cases "next_token_is tokens i signed_kw"; cases "next_token_is tokens i unsigned_kw") auto
  obtain r be1 where etn: "expect_type_name tokens i1 be = (r, be1)" by fastforce
  show ?thesis
  proof (cases r)
    case (Inl e)
    then show ?thesis by (simp add: parse_declaration_def s etn)
  next
    case (Inr i2)
    with etn have i2: "i2 = i1 + 1" "i1 < length tokens"
      using expect_type_name_Inr by blast+
    show ?thesis
    proof (cases "map_of type_tokens (kind (tokens ! (i2 - 1)))")
      case None
      then show ?thesis using Inr by (simp add: parse_declaration_def s etn)
    next
      case (Some c0)
      obtain c2 i3 where p: "pointer_stars tokens (if \<not> signed then to_unsigned c0 else c0) i2 = (c2, i3)"
        by fastforce
      then have i3: "i2 \<le> i3" by (rule ps)
      show ?thesis
      proof (cases "match_token tokens i3 identifier_kind ''expected identifier'' AFTER")
        case (Inl e)
        then show ?thesis using p Some by (simp add: parse_declaration_def s etn Inr)
      next
        case mt: (Inr i4)
        then have i4: "i4 = i3 + 1" "i3 < length tokens" using match_token_Inr by blast+
        show ?thesis
        proof (cases "array_suffix tokens c2 i4")
          case (Inl e)
          then show ?thesis
            using p mt Some by (simp add: parse_declaration_def s etn Inr)
        next
          case arr: (Inr ci)
          obtain c3 i5 where ci: "ci = (c3, i5)" by (cases ci)
          have i5: "i4 \<le> i5" using arr ci array_suffix_index by blast
          show ?thesis
          proof (cases "expect_semicolon tokens i5")
            case (Inl e)
            then show ?thesis
              using p mt arr ci Some by (simp add: parse_declaration_def s etn Inr)
          next
            case semi: (Inr i6)
            then have "i6 = i5 + 1" "i5 < length tokens"
              using match_token_Inr unfolding expect_semicolon_def by blast+
            then show ?thesis
              using p mt arr ci semi i1 i2 i3 i4 i5 Some
              by (simp add: parse_declaration_def s etn Inr)
          qed
        qed
      qed
    qed
  qed
qed

text \<open>
  \<^verbatim>\<open>parse_statement\<close>, \<^verbatim>\<open>parse_compound_statement\<close> and \<^verbatim>\<open>parse_if_statement\<close>, with the field
  \<open>best_error\<close> passed in and returned. Each \<^verbatim>\<open>except ParserError\<close> is a case on
  \<open>Inl (PErr e)\<close>; any other exception passes through. \<open>block_items\<close> is the
  \<^verbatim>\<open>while True\<close> loop of \<^verbatim>\<open>parse_compound_statement\<close>, on the index and the nodes read so
  far.
\<close>

function parse_statement ::
    "Token list \<Rightarrow> nat \<Rightarrow> parser_error option \<Rightarrow> (exc + Node \<times> nat) \<times> parser_error option"
  and parse_compound_statement ::
    "Token list \<Rightarrow> nat \<Rightarrow> parser_error option \<Rightarrow> (exc + Node \<times> nat) \<times> parser_error option"
  and block_items ::
    "Token list \<Rightarrow> nat \<Rightarrow> Node list \<Rightarrow> parser_error option
       \<Rightarrow> (exc + Node list \<times> nat) \<times> parser_error option"
  and parse_if_statement ::
    "Token list \<Rightarrow> nat \<Rightarrow> parser_error option \<Rightarrow> (exc + Node \<times> nat) \<times> parser_error option"
where
  "parse_statement tokens index be =
     (case parse_compound_statement tokens index be of
        (Inr r, be1) \<Rightarrow> (Inr r, be1)
      | (Inl (PErr e1), be1) \<Rightarrow>
          (case parse_return tokens index of
             Inr r \<Rightarrow> (Inr r, log_error e1 be1)
           | Inl (PErr e2) \<Rightarrow>
               (case parse_if_statement tokens index (log_error e2 (log_error e1 be1)) of
                  (Inr r, be2) \<Rightarrow> (Inr r, be2)
                | (Inl (PErr e3), be2) \<Rightarrow>
                    (parse_expr_statement tokens index, log_error e3 be2)
                | (Inl x, be2) \<Rightarrow> (Inl x, be2))
           | Inl x \<Rightarrow> (Inl x, log_error e1 be1))
      | (Inl x, be1) \<Rightarrow> (Inl x, be1))"
| "parse_compound_statement tokens index be =
     (case match_token tokens index open_brack (''expected '' @ quoted ''{'') GOT of
        Inl e \<Rightarrow> (Inl (PErr e), be)
      | Inr index1 \<Rightarrow>
          (case block_items tokens index1 [] be of
             (Inl x, be1) \<Rightarrow> (Inl x, be1)
           | (Inr (nodes, index2), be1) \<Rightarrow>
               (case match_token tokens index2 close_brack (''expected '' @ quoted ''}'') GOT of
                  Inl e \<Rightarrow> (Inl (PErr e), be1)
                | Inr index3 \<Rightarrow> (Inr (CompoundNode nodes, index3), be1))))"
| "block_items tokens index nodes be =
     (case parse_statement tokens index be of
        (Inr (node, index1), be1) \<Rightarrow> block_items tokens index1 (nodes @ [node]) be1
      | (Inl (PErr e1), be1) \<Rightarrow>
          (case parse_declaration tokens index (log_error e1 be1) of
             (Inr (node, index1), be2) \<Rightarrow> block_items tokens index1 (nodes @ [node]) be2
           | (Inl (PErr e2), be2) \<Rightarrow> (Inr (nodes, index), log_error e2 be2)
           | (Inl x, be2) \<Rightarrow> (Inl x, be2))
      | (Inl x, be1) \<Rightarrow> (Inl x, be1))"
| "parse_if_statement tokens index be =
     (case match_token tokens index if_kw (''expected keyword '' @ quoted ''if'') GOT of
        Inl e \<Rightarrow> (Inl (PErr e), be)
      | Inr index1 \<Rightarrow>
          (case match_token tokens index1 open_paren (''expected '' @ quoted ''('') AFTER of
             Inl e \<Rightarrow> (Inl (PErr e), be)
           | Inr index2 \<Rightarrow>
               (case parse_expression tokens index2 of
                  Inl e \<Rightarrow> (Inl e, be)
                | Inr (conditional, index3) \<Rightarrow>
                    (case match_token tokens index3 close_paren (''expected '' @ quoted '')'') AFTER of
                       Inl e \<Rightarrow> (Inl (PErr e), be)
                     | Inr index4 \<Rightarrow>
                         (case parse_statement tokens index4 be of
                            (Inl x, be1) \<Rightarrow> (Inl x, be1)
                          | (Inr (statement, index5), be1) \<Rightarrow>
                              (Inr (IfStatementNode conditional statement, index5), be1))))))"
  by pat_completeness auto

text \<open>Wherever the statement parser is defined, a success lies past its starting index.\<close>

lemma statement_advances_partial:
  "parse_statement_parse_compound_statement_block_items_parse_if_statement_dom
     (Inl (Inl (tokens, index, be)))
   \<Longrightarrow> advances (length tokens) index (fst (parse_statement tokens index be))"
  "parse_statement_parse_compound_statement_block_items_parse_if_statement_dom
     (Inl (Inr (tokens, index, be)))
   \<Longrightarrow> advances (length tokens) index (fst (parse_compound_statement tokens index be))"
  "parse_statement_parse_compound_statement_block_items_parse_if_statement_dom
     (Inr (Inl (tokens, index, nodes, be)))
   \<Longrightarrow> reaches index (fst (block_items tokens index nodes be))"
  "parse_statement_parse_compound_statement_block_items_parse_if_statement_dom
     (Inr (Inr (tokens, index, be)))
   \<Longrightarrow> advances (length tokens) index (fst (parse_if_statement tokens index be))"
proof (induction rule:
    parse_statement_parse_compound_statement_block_items_parse_if_statement.pinduct)
  case (1 tokens index be)
  obtain r be1 where c: "parse_compound_statement tokens index be = (r, be1)" by fastforce
  show ?case
  proof (cases r)
    case (Inr x)
    with 1(2) c show ?thesis by (simp add: parse_statement.psimps[OF 1(1)])
  next
    case (Inl a)
    show ?thesis
    proof (cases a)
      case (PErr e1)
      show ?thesis
      proof (cases "parse_return tokens index")
        case ret: (Inr x)
        with parse_return_advances[of tokens index] c Inl PErr show ?thesis
          by (simp add: parse_statement.psimps[OF 1(1)])
      next
        case ret: (Inl a2)
        show ?thesis
        proof (cases a2)
          case e2: (PErr e2)
          obtain r3 be3 where
            i: "parse_if_statement tokens index (log_error e2 (log_error e1 be1)) = (r3, be3)"
            by fastforce
          have ih: "advances (length tokens) index
                      (fst (parse_if_statement tokens index (log_error e2 (log_error e1 be1))))"
            using 1(3)[OF c[symmetric] Inl PErr ret e2] .
          show ?thesis
          proof (cases r3)
            case (Inr x)
            with ih i c Inl PErr ret e2 show ?thesis
              by (simp add: parse_statement.psimps[OF 1(1)])
          next
            case r3: (Inl a3)
            with parse_expr_statement_advances[of tokens index] i c Inl PErr ret e2
            show ?thesis
              by (cases a3) (simp_all add: parse_statement.psimps[OF 1(1)])
          qed
        qed (use c Inl PErr ret in \<open>simp_all add: parse_statement.psimps[OF 1(1)]\<close>)
      qed
    qed (use c Inl in \<open>simp_all add: parse_statement.psimps[OF 1(1)]\<close>)
  qed
next
  case (2 tokens index be)
  show ?case
  proof (cases "match_token tokens index open_brack (''expected '' @ quoted ''{'') GOT")
    case (Inl e)
    then show ?thesis by (simp add: parse_compound_statement.psimps[OF 2(1)])
  next
    case m: (Inr index1)
    then have i1: "index1 = index + 1" "index < length tokens"
      using match_token_Inr by blast+
    obtain r be1 where b: "block_items tokens index1 [] be = (r, be1)" by fastforce
    have ih: "reaches index1 (fst (block_items tokens index1 [] be))"
      using 2(2)[OF m] .
    show ?thesis
    proof (cases r)
      case (Inl x)
      with m b show ?thesis by (simp add: parse_compound_statement.psimps[OF 2(1)])
    next
      case (Inr ni)
      obtain ns index2 where ni: "ni = (ns, index2)" by (cases ni)
      have i2: "index1 \<le> index2" using ih b Inr ni by simp
      show ?thesis
      proof (cases "match_token tokens index2 close_brack (''expected '' @ quoted ''}'') GOT")
        case (Inl e)
        with m b Inr ni show ?thesis
          by (simp add: parse_compound_statement.psimps[OF 2(1)])
      next
        case m2: (Inr index3)
        then have "index3 = index2 + 1" "index2 < length tokens"
          using match_token_Inr by blast+
        with m b Inr ni m2 i1 i2 show ?thesis
          by (simp add: parse_compound_statement.psimps[OF 2(1)])
      qed
    qed
  qed
next
  case (3 tokens index nodes be)
  obtain r be1 where s: "parse_statement tokens index be = (r, be1)" by fastforce
  show ?case
  proof (cases r)
    case (Inr ni)
    obtain node index1 where ni: "ni = (node, index1)" by (cases ni)
    have "index < index1" using 3(2) s Inr ni by simp
    moreover have "reaches index1 (fst (block_items tokens index1 (nodes @ [node]) be1))"
      using 3(4)[OF s[symmetric] Inr ni[symmetric]] .
    ultimately show ?thesis
      using s Inr ni
      by (cases "fst (block_items tokens index1 (nodes @ [node]) be1)")
         (auto simp: block_items.psimps[OF 3(1)])
  next
    case (Inl a)
    show ?thesis
    proof (cases a)
      case (PErr e1)
      obtain r2 be2 where d: "parse_declaration tokens index (log_error e1 be1) = (r2, be2)"
        by fastforce
      show ?thesis
      proof (cases r2)
        case r2: (Inr ni)
        obtain node index1 where ni: "ni = (node, index1)" by (cases ni)
        have "index < index1"
          using parse_declaration_advances[of tokens index "log_error e1 be1"] d r2 ni by simp
        moreover have "reaches index1 (fst (block_items tokens index1 (nodes @ [node]) be2))"
          using 3(3)[OF s[symmetric] Inl PErr d[symmetric] r2 ni[symmetric]] .
        ultimately show ?thesis
          using s Inl PErr d r2 ni
          by (cases "fst (block_items tokens index1 (nodes @ [node]) be2)")
             (auto simp: block_items.psimps[OF 3(1)])
      next
        case r2: (Inl a2)
        with s Inl PErr d show ?thesis
          by (cases a2) (simp_all add: block_items.psimps[OF 3(1)])
      qed
    qed (use s Inl in \<open>simp_all add: block_items.psimps[OF 3(1)]\<close>)
  qed
next
  case (4 tokens index be)
  show ?case
  proof (cases "match_token tokens index if_kw (''expected keyword '' @ quoted ''if'') GOT")
    case (Inl e)
    then show ?thesis by (simp add: parse_if_statement.psimps[OF 4(1)])
  next
    case m1: (Inr index1)
    then have i1: "index1 = index + 1" "index < length tokens"
      using match_token_Inr by blast+
    show ?thesis
    proof (cases "match_token tokens index1 open_paren (''expected '' @ quoted ''('') AFTER")
      case (Inl e)
      with m1 show ?thesis by (simp add: parse_if_statement.psimps[OF 4(1)])
    next
      case m2: (Inr index2)
      then have i2: "index2 = index1 + 1" using match_token_Inr by blast
      show ?thesis
      proof (cases "parse_expression tokens index2")
        case (Inl e)
        with m1 m2 show ?thesis by (simp add: parse_if_statement.psimps[OF 4(1)])
      next
        case pe: (Inr ci)
        obtain conditional index3 where ci: "ci = (conditional, index3)" by (cases ci)
        have i3: "index2 \<le> index3" using pe ci parse_expression_index by blast
        show ?thesis
        proof (cases "match_token tokens index3 close_paren (''expected '' @ quoted '')'') AFTER")
          case (Inl e)
          with m1 m2 pe ci show ?thesis by (simp add: parse_if_statement.psimps[OF 4(1)])
        next
          case m3: (Inr index4)
          then have i4: "index4 = index3 + 1" using match_token_Inr by blast
          have ih: "advances (length tokens) index4 (fst (parse_statement tokens index4 be))"
            using 4(2)[OF m1 m2 pe ci[symmetric] m3] .
          obtain r be1 where s: "parse_statement tokens index4 be = (r, be1)" by fastforce
          show ?thesis
          proof (cases r)
            case (Inl x)
            with m1 m2 pe ci m3 s show ?thesis
              by (simp add: parse_if_statement.psimps[OF 4(1)])
          next
            case (Inr ni)
            obtain statement index5 where ni: "ni = (statement, index5)" by (cases ni)
            with ih s Inr have "index4 < index5 \<and> index5 \<le> length tokens" by simp
            with m1 m2 pe ci m3 s Inr ni i1 i2 i3 i4 show ?thesis
              by (simp add: parse_if_statement.psimps[OF 4(1)])
          qed
        qed
      qed
    qed
  qed
qed

termination parse_statement
proof (relation "measure (\<lambda>x. case x of
      Inl (Inl (tokens, index, be)) \<Rightarrow> 4 * (length tokens - index) + 2
    | Inl (Inr (tokens, index, be)) \<Rightarrow> 4 * (length tokens - index) + 1
    | Inr (Inl (tokens, index, nodes, be)) \<Rightarrow> 4 * (length tokens - index) + 3
    | Inr (Inr (tokens, index, be)) \<Rightarrow> 4 * (length tokens - index) + 1)", goal_cases)
  case 1
  show ?case by simp
next
  case (2 tokens index be)
  show ?case by simp
next
  case 3
  show ?case by simp
next
  case 4
  then show ?case by (auto dest!: match_token_Inr)
next
  case 5
  show ?case by simp
next
  case (6 tokens index nodes be x y a x1 xa ya b xb yb)
  then have "fst (parse_declaration tokens index (log_error x1 y)) = Inr (xb, yb)"
    by (metis fst_conv)
  with parse_declaration_advances[of tokens index "log_error x1 y"]
  have "index < yb \<and> yb \<le> length tokens" by simp
  then show ?case by (simp add: diff_less_mono2)
next
  case (7 tokens index nodes be x y b xa ya)
  then have "fst (parse_statement tokens index be) = Inr (xa, ya)"
    by (metis fst_conv)
  moreover from 7 have
    "parse_statement_parse_compound_statement_block_items_parse_if_statement_dom
       (Inl (Inl (tokens, index, be)))"
    by simp
  ultimately have "index < ya \<and> ya \<le> length tokens"
    using statement_advances_partial(1)[of tokens index be] by simp
  then show ?case by (simp add: diff_less_mono2)
next
  case 8
  then show ?case
    by (auto dest!: match_token_Inr parse_expression_index)
qed

declare parse_statement.simps [simp del] parse_compound_statement.simps [simp del]
  block_items.simps [simp del] parse_if_statement.simps [simp del]


text \<open>\<^verbatim>\<open>parse_main\<close>\<close>

definition parse_main ::
  "Token list \<Rightarrow> nat \<Rightarrow> parser_error option \<Rightarrow> (exc + Node \<times> nat) \<times> parser_error option"
where
  "parse_main tokens index be =
     (let err = ''expected main function starting'' in
      case match_token tokens index int_kw err AT of
        Inl e \<Rightarrow> (Inl (PErr e), be)
      | Inr index1 \<Rightarrow>
          (case match_token tokens index1 main err AT of
             Inl e \<Rightarrow> (Inl (PErr e), be)
           | Inr index2 \<Rightarrow>
               (case match_token tokens index2 open_paren err AT of
                  Inl e \<Rightarrow> (Inl (PErr e), be)
                | Inr index3 \<Rightarrow>
                    (case match_token tokens index3 close_paren err AT of
                       Inl e \<Rightarrow> (Inl (PErr e), be)
                     | Inr index4 \<Rightarrow>
                         (case parse_compound_statement tokens index4 be of
                            (Inl x, be1) \<Rightarrow> (Inl x, be1)
                          | (Inr (node, index5), be1) \<Rightarrow>
                              (Inr (MainNode node, index5), be1))))))"

text \<open>
  \<^verbatim>\<open>parse\<close>, from \<open>best_error = None\<close>: the value returned (\<open>Inr None\<close> for \<^verbatim>\<open>None\<close>,
  \<open>Inl\<close> for an exception that leaves the call) and what is added to
  \<^verbatim>\<open>error_collector\<close>, in order. After a \<open>ParserError\<close> the field \<open>best_error\<close> is added
  as it stands after logging that error.
\<close>

definition parse :: "Token list \<Rightarrow> (exc + Node option) \<times> parser_error option list" where
  "parse tokens =
     (case parse_main tokens 0 None of
        (Inl (PErr e), be) \<Rightarrow> (Inr None, [log_error e be])
      | (Inl x, be) \<Rightarrow> (Inl x, [])
      | (Inr (node, index), be) \<Rightarrow>
          (Inr (Some node),
           if drop index tokens \<noteq> [] then [Some (ParserError ''unexpected token'' index AT)]
           else []))"

section \<open>Evaluating the parser\<close>

text \<open>The definitions that a run of \<open>parse_expression\<close> on given tokens unfolds.\<close>

lemmas expr_defs = parse_expression_def match_function_call_def binary_reducible_def
  unary_reducible_def paren_reducible_def shiftable_def reduce_number_def reduce_identifier_def
  reduce_binary_def reduce_unary_def reduce_function_call_def reduce_paren_def
  from_top_def del_top_def top_slice_def py_index_def binary_operators_def
  unary_prefix_operators_def assignment_operators_def ParserError_def Let_def expr_loop.simps

text \<open>The definitions that a run of \<open>parse_declaration\<close> unfolds.\<close>

lemmas decl_defs = parse_declaration_def array_suffix_def expect_type_name_def match_token_def
  next_token_is_def expect_semicolon_def type_tokens_def py_int_def is_digit_def
  log_error_def ParserError_def pointer_stars.simps Let_def

text \<open>The definitions that a run of \<open>parse\<close> unfolds.\<close>

lemmas stmt_defs = parse_def parse_main_def parse_statement.simps
  parse_compound_statement.simps block_items.simps parse_if_statement.simps
  parse_return_def parse_expr_statement_def quoted_def

section \<open>Properties of the expression parser\<close>

text \<open>
  C1. On the tokens \<open>f ( x )\<close> \<open>parse_expression\<close> returns the function call of
  \<open>Identifier(f)\<close> with the one argument \<open>Identifier(x)\<close>, past all four tokens. On the
  tokens \<open>( x )\<close> it returns no \<open>ParenExpr\<close> node: with the three items \<open>(\<close>, \<open>EXPR\<close>,
  \<open>)\<close> on the stack \<open>match_function_call\<close> reads \<^verbatim>\<open>stack[i - 1]\<close> at \<open>i = -3\<close>, one
  below the bottom of the stack, and the \<open>IndexError\<close> leaves \<open>parse_expression\<close>.
\<close>

theorem parse_expression_call_and_grouping:
  "parse_expression
     [Token identifier_kind ''f'', Token open_paren ''('', Token identifier_kind ''x'',
      Token close_paren '')''] 0
   = Inr (FunctionCallNode (IdentifierNode (Token identifier_kind ''f''))
            [IdentifierNode (Token identifier_kind ''x'')], 4)
   \<and> parse_expression
       [Token open_paren ''('', Token identifier_kind ''x'', Token close_paren '')''] 0
     = Inl IndexError"
  by (simp add: expr_defs)

text \<open>
  C3, as stated, fails: on the tokens \<open>1 )\<close> the loop stops with two items on the stack,
  the node of \<open>1\<close> and the token \<open>)\<close>, and the call succeeds with the node of \<open>1\<close>.
\<close>

theorem parse_expression_two_items_succeeds:
  "expr_loop [Token number ''1'', Token close_paren '')''] [] 0
     = Inr [StackItem (Nd (NumberNode (Token number ''1''))) 1,
            StackItem (Tok (Token close_paren '')'')) 1]
   \<and> parse_expression [Token number ''1'', Token close_paren '')''] 0
     = Inr (NumberNode (Token number ''1''), 1)"
  by (simp add: expr_defs)

text \<open>
  C3, amended. When the loop stops with a stack, the call succeeds exactly when the
  bottom item of the stack is an expression node, whatever lies above it: it returns
  that node and the starting index plus the number of tokens of that item. In every
  other case (an empty stack, or a token at the bottom) it raises the error
  \<open>expected expression\<close> of kind \<open>GOT\<close> at the starting index.
\<close>

theorem parse_expression_bottom_of_stack:
  assumes "expr_loop tokens [] index = Inr stack"
  shows "parse_expression tokens index =
           (case stack of
              StackItem (Nd n) l # rest \<Rightarrow> Inr (n, index + l)
            | _ \<Rightarrow> Inl (PErr (ParserError ''expected expression'' index GOT)))"
proof (cases stack)
  case Nil
  with assms show ?thesis by (simp add: parse_expression_def)
next
  case (Cons s rest)
  obtain e l where s: "s = StackItem e l" by (cases s)
  show ?thesis
    using assms Cons s by (cases e) (simp_all add: parse_expression_def)
qed

theorem parse_expression_bottom_of_stack_witness:
  "expr_loop [Token plus_kind ''+'', Token number ''1''] [] 0
     = Inr [StackItem (Tok (Token plus_kind ''+'')) 1,
            StackItem (Nd (NumberNode (Token number ''1''))) 1]
   \<and> parse_expression [Token plus_kind ''+'', Token number ''1''] 0
     = Inl (PErr (ParserError ''expected expression'' 0 GOT))"
proof -
  have h: "expr_loop [Token plus_kind ''+'', Token number ''1''] [] 0
     = Inr [StackItem (Tok (Token plus_kind ''+'')) 1,
            StackItem (Nd (NumberNode (Token number ''1''))) 1]"
    by (simp add: expr_defs)
  show ?thesis
    using h parse_expression_bottom_of_stack [OF h] by simp
qed

text \<open>
  C6. On the tokens \<open>1 + 2 * 3\<close> \<open>parse_expression\<close> returns the sum of \<open>1\<close> and the
  product of \<open>2\<close> and \<open>3\<close>. The precedence table gives \<open>*\<close> and \<open>/\<close> 12, \<open>+\<close> 11,
  \<open>==\<close> and \<open>!=\<close> 8 and \<open>=\<close> 1, and holds no other operator.
\<close>

theorem parse_expression_precedence:
  "parse_expression
     [Token number ''1'', Token plus_kind ''+'', Token number ''2'', Token star ''*'',
      Token number ''3''] 0
   = Inr (BinaryOperatorNode (NumberNode (Token number ''1'')) (Token plus_kind ''+'')
            (BinaryOperatorNode (NumberNode (Token number ''2'')) (Token star ''*'')
               (NumberNode (Token number ''3''))), 5)
   \<and> binary_operators star = Some 12 \<and> binary_operators slash = Some 12
   \<and> binary_operators plus_kind = Some 11
   \<and> binary_operators twoequals = Some 8 \<and> binary_operators notequal = Some 8
   \<and> binary_operators equals = Some 1
   \<and> dom binary_operators = {plus_kind, star, slash, twoequals, notequal, equals}"
  by (simp add: expr_defs) (auto simp: binary_operators_def)

text \<open>
  C7. On the tokens \<open>a = b = 5\<close> \<open>parse_expression\<close> returns the assignment to \<open>a\<close> of
  the assignment to \<open>b\<close> of \<open>5\<close>: the rightmost assignment is reduced first.
\<close>

theorem parse_expression_assignment_right_assoc:
  "parse_expression
     [Token identifier_kind ''a'', Token equals ''='', Token identifier_kind ''b'',
      Token equals ''='', Token number ''5''] 0
   = Inr (BinaryOperatorNode (IdentifierNode (Token identifier_kind ''a'')) (Token equals ''='')
            (BinaryOperatorNode (IdentifierNode (Token identifier_kind ''b''))
               (Token equals ''='') (NumberNode (Token number ''5''))), 5)"
  by (simp add: expr_defs)

text \<open>
  C8. On the tokens \<open>a ( 1 , 2 , 3 )\<close> \<open>parse_expression\<close> returns the call of \<open>a\<close> with
  the arguments \<open>1\<close>, \<open>2\<close>, \<open>3\<close> in the order of the source.
\<close>

theorem parse_expression_argument_order:
  "parse_expression
     [Token identifier_kind ''a'', Token open_paren ''('', Token number ''1'', Token comma '','',
      Token number ''2'', Token comma '','', Token number ''3'', Token close_paren '')''] 0
   = Inr (FunctionCallNode (IdentifierNode (Token identifier_kind ''a''))
            [NumberNode (Token number ''1''), NumberNode (Token number ''2''),
             NumberNode (Token number ''3'')], 8)"
  by (simp add: expr_defs)

section \<open>Properties of the best error\<close>

text \<open>
  C5. After any non-empty sequence of errors has been logged, starting from no best
  error, the retained best error is one of the logged errors, at a position such that
  no error logged before it has a greater \<open>amount_parsed\<close> and every error logged after
  it has a smaller one: it has the greatest \<open>amount_parsed\<close>, and is the most recent of
  the errors that have it.
\<close>

theorem best_error_latest_maximum:
  assumes "es \<noteq> []"
  shows "\<exists>pre e post. es = pre @ e # post \<and> fold log_error es None = Some e
           \<and> (\<forall>x\<in>set pre. amount_parsed x \<le> amount_parsed e)
           \<and> (\<forall>x\<in>set post. amount_parsed x < amount_parsed e)"
  using assms
proof (induction es rule: rev_induct)
  case Nil
  then show ?case by simp
next
  case (snoc x es)
  show ?case
  proof (cases "es = []")
    case True
    show ?thesis
      by (rule exI[of _ "[]"], rule exI[of _ x], rule exI[of _ "[]"])
         (simp add: True log_error_def)
  next
    case False
    with snoc.IH obtain pre e post where
      es: "es = pre @ e # post" and best: "fold log_error es None = Some e" and
      le: "\<forall>y\<in>set pre. amount_parsed y \<le> amount_parsed e" and
      lt: "\<forall>y\<in>set post. amount_parsed y < amount_parsed e"
      by blast
    show ?thesis
    proof (cases "amount_parsed x \<ge> amount_parsed e")
      case True
      have new: "fold log_error (es @ [x]) None = Some x"
        using best True by (simp add: log_error_def)
      have all: "\<forall>y\<in>set es. amount_parsed y \<le> amount_parsed x"
      proof
        fix y assume "y \<in> set es"
        then have "y \<in> set pre \<or> y = e \<or> y \<in> set post" using es by auto
        then have "amount_parsed y \<le> amount_parsed e" using le lt by auto
        then show "amount_parsed y \<le> amount_parsed x" using True by simp
      qed
      show ?thesis
        using new all by (intro exI[of _ es] exI[of _ x] exI[of _ "[]"]) simp
    next
      case False
      have old: "fold log_error (es @ [x]) None = Some e"
        using best False by (simp add: log_error_def)
      have all: "\<forall>y\<in>set (post @ [x]). amount_parsed y < amount_parsed e"
        using lt False by auto
      show ?thesis
        using old all le es by (intro exI[of _ pre] exI[of _ e] exI[of _ "post @ [x]"]) simp
    qed
  qed
qed

theorem best_error_latest_maximum_witness:
  "fold log_error
     [ParserError ''a'' 1 GOT, ParserError ''b'' 3 GOT, ParserError ''c'' 3 AT,
      ParserError ''d'' 2 AFTER] None
   = Some (ParserError ''c'' 3 AT)"
proof -
  let ?es = "[ParserError ''a'' 1 GOT, ParserError ''b'' 3 GOT, ParserError ''c'' 3 AT,
              ParserError ''d'' 2 AFTER]"
  have "?es \<noteq> []" by simp
  from best_error_latest_maximum [OF this] obtain e where e: "fold log_error ?es None = Some e"
    by blast
  have "fold log_error ?es None = Some (ParserError ''c'' 3 AT)"
    by (simp add: log_error_def ParserError_def)
  with e have "e = ParserError ''c'' 3 AT" by simp
  with e show ?thesis by simp
qed

section \<open>Properties of declarations\<close>

text \<open>A type keyword at the index is matched by \<^verbatim>\<open>_expect_type_name\<close>.\<close>

lemma expect_type_name_ok:
  assumes "index < length tokens" and "map_of type_tokens (kind (tokens ! index)) = Some b"
  shows "fst (expect_type_name tokens index be) = Inr (index + 1)"
proof -
  from assms(2) have "kind (tokens ! index) \<in> {void_kw, bool_kw, char_kw, short_kw, int_kw, long_kw}"
    by (simp add: type_tokens_def split: if_splits)
  with assms(1) show ?thesis
    by (auto simp: expect_type_name_def type_tokens_def match_token_def)
qed

text \<open>The loop over the \<open>*\<close> tokens wraps the type once for each of them.\<close>

lemma pointer_stars_run:
  assumes "\<forall>t\<in>set stars. kind t = star" and "rest = [] \<or> kind (hd rest) \<noteq> star"
  shows "pointer_stars (pre @ stars @ rest) c (length pre)
           = ((PointerCType ^^ length stars) c, length pre + length stars)"
  using assms
proof (induction stars arbitrary: pre c)
  case Nil
  then show ?case
    by (cases rest) (auto simp: pointer_stars.simps next_token_is_def)
next
  case (Cons s stars)
  have step: "next_token_is (pre @ (s # stars) @ rest) (length pre) star"
    using Cons.prems by (simp add: next_token_is_def)
  have "pointer_stars (pre @ (s # stars) @ rest) c (length pre)
          = pointer_stars ((pre @ [s]) @ stars @ rest) (PointerCType c) (length (pre @ [s]))"
    using step by (subst pointer_stars.simps) simp
  also have "\<dots> = ((PointerCType ^^ length stars) (PointerCType c),
                    length (pre @ [s]) + length stars)"
    using Cons.prems by (intro Cons.IH) auto
  finally show ?case by (simp add: funpow_swap1)
qed

lemma map_of_type_tokens_kind:
  "map_of type_tokens k = Some b \<Longrightarrow> k \<noteq> signed_kw \<and> k \<noteq> unsigned_kw \<and> k \<noteq> star"
  by (auto simp: type_tokens_def split: if_splits)

text \<open>
  A declaration read up to its identifier: what is left of \<open>parse_declaration\<close> is the
  test for the array suffix and the semicolon, at the index \<open>j\<close> after the identifier.
\<close>

lemma declaration_head:
  fixes pre signs stars rest :: "Token list"
  assumes ty: "map_of type_tokens (kind ty) = Some base"
    and signs: "signs = [] \<or> (\<exists>s. signs = [s] \<and> (kind s = signed_kw \<or> kind s = unsigned_kw))"
    and stars: "\<forall>t\<in>set stars. kind t = star"
    and name: "kind name = identifier_kind"
  defines "toks \<equiv> pre @ signs @ ty # stars @ name # rest"
    and "j \<equiv> length pre + length signs + length stars + 2"
    and "ctype \<equiv> (PointerCType ^^ length stars)
                    (if signs \<noteq> [] \<and> kind (hd signs) = unsigned_kw then to_unsigned base else base)"
  shows "fst (parse_declaration toks (length pre) be) =
           (case array_suffix toks ctype j of
              Inl e \<Rightarrow> Inl e
            | Inr (ctype3, index5) \<Rightarrow>
                (case expect_semicolon toks index5 of
                   Inl e \<Rightarrow> Inl (PErr e)
                 | Inr index6 \<Rightarrow> Inr (DeclarationNode name ctype3, index6)))"
proof -
  define m where "m = length pre + length signs"
  define sg where "sg = (\<not> (signs \<noteq> [] \<and> kind (hd signs) = unsigned_kw))"
  have toks2: "toks = (pre @ signs) @ ty # stars @ name # rest"
    by (simp add: toks_def)
  have at_m: "toks ! m = ty" and m_lt: "m < length toks"
    unfolding toks2 m_def by (simp_all add: nth_append)
  have sign_eq: "(if next_token_is toks (length pre) signed_kw then (True, length pre + 1)
               else if next_token_is toks (length pre) unsigned_kw then (False, length pre + 1)
               else (True, length pre)) = (sg, m)"
    using signs map_of_type_tokens_kind[OF ty]
    by (auto simp: toks_def next_token_is_def sg_def m_def nth_append)
  obtain be' where etn: "expect_type_name toks m be = (Inr (m + 1), be')"
    using expect_type_name_ok[OF m_lt, of base be] ty at_m
    by (cases "expect_type_name toks m be") auto
  have toks3: "toks = (pre @ signs @ [ty]) @ stars @ (name # rest)"
    by (simp add: toks_def)
  have ps: "pointer_stars toks c (m + 1) = ((PointerCType ^^ length stars) c, m + 1 + length stars)"
    for c
    using pointer_stars_run[of stars "name # rest" "pre @ signs @ [ty]" c] stars name
    by (simp add: toks3 m_def)
  have at_name: "toks ! (m + 1 + length stars) = name" "m + 1 + length stars < length toks"
    unfolding toks3 m_def by (simp_all add: nth_append)
  have mt: "match_token toks (m + 1 + length stars) identifier_kind ''expected identifier'' AFTER
              = Inr (m + 1 + length stars + 1)"
    using at_name name by (simp add: match_token_def)
  have j: "m + 1 + length stars + 1 = j" by (simp add: j_def m_def)
  have at_j: "toks ! (j - 1) = name" using at_name(1) j by (metis add_diff_cancel_right')
  show ?thesis
    unfolding parse_declaration_def sign_eq
    by (simp only: prod.case Let_def etn sum.case at_m ty option.case ps mt add_diff_cancel_right'
          at_name j at_j fst_conv)
       (use at_j in \<open>auto simp: ctype_def sg_def split: sum.splits prod.splits\<close>)
qed

lemma next_token_is_append:
  "next_token_is (xs @ ys) (length xs + i) k = next_token_is ys i k"
  by (simp add: next_token_is_def)

text \<open>
  C9, as stated, fails: in the declaration \<open>int * a [ 5 ] ;\<close> one \<open>*\<close> stands between
  the base type and the identifier, and the type of the node is the array of five
  pointers to \<open>int\<close>, not one \<open>PointerCType\<close> wrapper around \<open>int\<close>.
\<close>

theorem parse_declaration_pointer_array:
  "fst (parse_declaration
          [Token int_kw ''int'', Token star ''*'', Token identifier_kind ''a'',
           Token open_sq_brack ''['', Token number ''5'', Token close_sq_brack '']'',
           Token semicolon '';''] 0 None)
   = Inr (DeclarationNode (Token identifier_kind ''a'')
            (ArrayCType (PointerCType (BaseCType integer True)) 5), 7)
   \<and> ArrayCType (PointerCType (BaseCType integer True)) 5
       \<noteq> (PointerCType ^^ 1) (BaseCType integer True)"
  by (simp add: decl_defs)

text \<open>
  C9, amended. Take a declaration made of an optional \<open>signed\<close> or \<open>unsigned\<close> keyword,
  a base-type keyword, \<open>k\<close> tokens \<open>*\<close> and an identifier, at any place of the token
  list, and let \<open>pointers\<close> be \<open>k\<close> nested \<open>PointerCType\<close> wrappers around the base type
  (made unsigned after \<open>unsigned\<close>), the base type innermost. When the semicolon follows
  the identifier, the node's type is exactly \<open>pointers\<close>. When \<open>[\<close>, a number token of
  value \<open>n\<close>, \<open>]\<close> and the semicolon follow it, the node's type is \<open>pointers\<close> inside one
  \<open>ArrayCType\<close> of length \<open>n\<close>. In both cases the node is the \<open>DeclarationNode\<close> of the
  identifier and the index returned is just past the semicolon.
\<close>

theorem parse_declaration_pointers_then_array:
  fixes pre signs stars post :: "Token list"
  assumes "map_of type_tokens (kind ty) = Some base"
    and "signs = [] \<or> (\<exists>s. signs = [s] \<and> (kind s = signed_kw \<or> kind s = unsigned_kw))"
    and "\<forall>t\<in>set stars. kind t = star"
    and "kind name = identifier_kind"
    and "kind semi = semicolon"
    and "kind lbr = open_sq_brack"
    and "kind num = number"
    and "py_int (content num) = Inr n"
    and "kind rbr = close_sq_brack"
  defines "pointers \<equiv> (PointerCType ^^ length stars)
                          (if signs \<noteq> [] \<and> kind (hd signs) = unsigned_kw
                           then to_unsigned base else base)"
  shows "fst (parse_declaration (pre @ signs @ ty # stars @ name # semi # post) (length pre) be)
           = Inr (DeclarationNode name pointers,
                  length pre + length signs + length stars + 3)
         \<and> fst (parse_declaration
                  (pre @ signs @ ty # stars @ name # lbr # num # rbr # semi # post)
                  (length pre) be)
           = Inr (DeclarationNode name (ArrayCType pointers n),
                  length pre + length signs + length stars + 6)"
proof
  let ?j = "length pre + length signs + length stars + 2"
  let ?head = "pre @ signs @ ty # stars @ [name]"
  have len: "length ?head = ?j" by simp
  show "fst (parse_declaration (pre @ signs @ ty # stars @ name # semi # post) (length pre) be)
           = Inr (DeclarationNode name pointers,
                  length pre + length signs + length stars + 3)"
  proof -
    let ?toks = "pre @ signs @ ty # stars @ name # semi # post"
    have split: "?toks = ?head @ semi # post" by simp
    have no_bracket: "\<not> next_token_is ?toks ?j open_sq_brack"
      using next_token_is_append[of ?head "semi # post" 0 open_sq_brack] assms(5)
      unfolding len split[symmetric] by (simp add: next_token_is_def)
    have semi: "expect_semicolon ?toks ?j = Inr (?j + 1)"
      using next_token_is_append[of ?head "semi # post" 0 semicolon] assms(5)
      unfolding len split[symmetric]
      by (simp add: next_token_is_def expect_semicolon_def match_token_def)
    show ?thesis
      unfolding declaration_head[OF assms(1-4)] pointers_def using no_bracket semi
      by (simp add: array_suffix_def)
  qed
  show "fst (parse_declaration
               (pre @ signs @ ty # stars @ name # lbr # num # rbr # semi # post)
               (length pre) be)
           = Inr (DeclarationNode name (ArrayCType pointers n),
                  length pre + length signs + length stars + 6)"
  proof -
    let ?rest = "lbr # num # rbr # semi # post"
    let ?toks = "pre @ signs @ ty # stars @ name # ?rest"
    have split: "?toks = ?head @ ?rest" by simp
    have at: "next_token_is ?toks (?j + i) k = next_token_is ?rest i k" for i k
      using next_token_is_append[of ?head ?rest i k] unfolding len split[symmetric] .
    have b0: "next_token_is ?toks ?j open_sq_brack"
      using at[of 0 open_sq_brack] assms(6) by (simp add: next_token_is_def)
    have b1: "next_token_is ?toks (?j + 1) number"
      using at[of 1 number] assms(7) by (simp add: next_token_is_def)
    have b2: "next_token_is ?toks (?j + 2) close_sq_brack"
      using at[of 2 close_sq_brack] assms(9) by (simp add: next_token_is_def)
    have num: "?toks ! (?j + 1) = num"
      using nth_append_length_plus[of ?head ?rest 1] unfolding len split[symmetric] by simp
    have arr: "array_suffix ?toks pointers ?j = Inr (ArrayCType pointers n, ?j + 3)"
      unfolding array_suffix_def using b0 b1 b2 num assms(8) by simp
    have semi: "expect_semicolon ?toks (?j + 3) = Inr (?j + 3 + 1)"
      using at[of 3 semicolon] assms(5)
      by (simp add: next_token_is_def expect_semicolon_def match_token_def)
    show ?thesis
      unfolding declaration_head[OF assms(1-4)] pointers_def[symmetric] arr
      using semi by simp
  qed
qed

theorem parse_declaration_pointers_then_array_witness:
  "fst (parse_declaration
          [Token open_brack ''{'', Token unsigned_kw ''unsigned'', Token char_kw ''char'',
           Token star ''*'', Token star ''*'', Token identifier_kind ''p'',
           Token semicolon '';'', Token close_brack ''}''] 1 None)
   = Inr (DeclarationNode (Token identifier_kind ''p'')
            (PointerCType (PointerCType (BaseCType char False))), 7)
   \<and> fst (parse_declaration
          [Token open_brack ''{'', Token unsigned_kw ''unsigned'', Token char_kw ''char'',
           Token star ''*'', Token star ''*'', Token identifier_kind ''p'',
           Token open_sq_brack ''['', Token number ''12'', Token close_sq_brack '']'',
           Token semicolon '';'', Token close_brack ''}''] 1 None)
   = Inr (DeclarationNode (Token identifier_kind ''p'')
            (ArrayCType (PointerCType (PointerCType (BaseCType char False))) 12), 10)"
  using parse_declaration_pointers_then_array
          [of "Token char_kw ''char''" "BaseCType char True" "[Token unsigned_kw ''unsigned'']"
              "[Token star ''*'', Token star ''*'']" "Token identifier_kind ''p''"
              "Token semicolon '';''" "Token open_sq_brack ''[''" "Token number ''12''" 12
              "Token close_sq_brack '']''" "[Token open_brack ''{'']" "[Token close_brack ''}'']"
              None]
  by (simp add: type_tokens_def numeral_2_eq_2 py_int_def is_digit_def)

text \<open>
  C10. When the identifier of a declaration is followed by \<open>[\<close> and the two tokens after
  it are not a number and \<open>]\<close>, no token of the bracket is consumed and no error of
  its own is raised: the declaration fails with the error \<open>expected semicolon\<close> of kind
  \<open>AFTER\<close> at the index of the \<open>[\<close> token, and no node, so no array type, is returned.
\<close>

theorem parse_declaration_bracket_left:
  fixes pre signs stars rest :: "Token list"
  assumes "map_of type_tokens (kind ty) = Some base"
    and "signs = [] \<or> (\<exists>s. signs = [s] \<and> (kind s = signed_kw \<or> kind s = unsigned_kw))"
    and "\<forall>t\<in>set stars. kind t = star"
    and "kind name = identifier_kind"
    and "kind lbr = open_sq_brack"
    and "\<not> (next_token_is rest 0 number \<and> next_token_is rest 1 close_sq_brack)"
  shows "fst (parse_declaration (pre @ signs @ ty # stars @ name # lbr # rest) (length pre) be)
         = Inl (PErr (ParserError ''expected semicolon''
                        (length pre + length signs + length stars + 2) AFTER))"
proof -
  let ?toks = "pre @ signs @ ty # stars @ name # lbr # rest"
  let ?j = "length pre + length signs + length stars + 2"
  have split: "?toks = (pre @ signs @ ty # stars @ [name, lbr]) @ rest" by simp
  have len: "length (pre @ signs @ ty # stars @ [name, lbr]) = ?j + 1" by simp
  have n1: "next_token_is ?toks (?j + 1) number = next_token_is rest 0 number"
    using next_token_is_append[of "pre @ signs @ ty # stars @ [name, lbr]" rest 0 number]
    unfolding len split[symmetric] by simp
  have n2: "next_token_is ?toks (?j + 2) close_sq_brack = next_token_is rest 1 close_sq_brack"
    using next_token_is_append[of "pre @ signs @ ty # stars @ [name, lbr]" rest 1 close_sq_brack]
    unfolding len split[symmetric] by simp
  have split': "?toks = (pre @ signs @ ty # stars @ [name]) @ lbr # rest" by simp
  have at_j: "?toks ! ?j = lbr" "?j < length ?toks"
    unfolding split' by (simp_all add: nth_append)
  have semi: "expect_semicolon ?toks ?j = Inl (ParserError ''expected semicolon'' ?j AFTER)"
    using at_j assms(5) by (simp add: expect_semicolon_def match_token_def)
  show ?thesis
    unfolding declaration_head[OF assms(1-4)] using n1 n2 assms(6) semi
    by (auto simp: array_suffix_def)
qed

theorem parse_declaration_bracket_left_witness:
  "fst (parse_declaration
          [Token int_kw ''int'', Token identifier_kind ''a'', Token open_sq_brack ''['',
           Token close_sq_brack '']'', Token semicolon '';''] 0 None)
   = Inl (PErr (ParserError ''expected semicolon'' 2 AFTER))
   \<and> fst (parse_declaration
          [Token int_kw ''int'', Token identifier_kind ''a'', Token open_sq_brack ''['',
           Token identifier_kind ''n'', Token close_sq_brack '']'', Token semicolon '';''] 0 None)
   = Inl (PErr (ParserError ''expected semicolon'' 2 AFTER))"
  using parse_declaration_bracket_left
          [of "Token int_kw ''int''" "BaseCType integer True" "[]" "[]"
              "Token identifier_kind ''a''" "Token open_sq_brack ''[''"
              "[Token close_sq_brack '']'', Token semicolon '';'']" "[]" None]
        parse_declaration_bracket_left
          [of "Token int_kw ''int''" "BaseCType integer True" "[]" "[]"
              "Token identifier_kind ''a''" "Token open_sq_brack ''[''"
              "[Token identifier_kind ''n'', Token close_sq_brack '']'', Token semicolon '';'']"
              "[]" None]
  by (simp add: type_tokens_def next_token_is_def numeral_2_eq_2)

text \<open>With a number and \<open>]\<close> after the \<open>[\<close> the three tokens are consumed.\<close>

lemma parse_declaration_array_example:
  "fst (parse_declaration
          [Token int_kw ''int'', Token identifier_kind ''a'', Token open_sq_brack ''['',
           Token number ''5'', Token close_sq_brack '']'', Token semicolon '';''] 0 None)
   = Inr (DeclarationNode (Token identifier_kind ''a'') (ArrayCType (BaseCType integer True) 5),
          6)"
  by (simp add: decl_defs)

section \<open>Properties of the whole parse\<close>

text \<open>
  When \<open>parse_main\<close> raises a \<open>ParserError\<close>, \<open>parse\<close> returns \<^verbatim>\<open>None\<close> and adds one
  diagnostic, the best error.
\<close>

lemma parse_failure_one_diagnostic:
  assumes "parse_main tokens 0 None = (Inl (PErr e), be)"
  shows "\<exists>best. parse tokens = (Inr None, [Some best]) \<and> log_error e be = Some best"
  using assms by (cases be) (simp_all add: parse_def log_error_def)

text \<open>
  C2. On the tokens \<open>int main ( ) { ( x ) ; }\<close> the call of \<open>parse\<close> does not return:
  the \<open>IndexError\<close> raised by \<open>match_function_call\<close> on the stack \<open>(\<close>, \<open>EXPR\<close>, \<open>)\<close>
  is no \<open>ParserError\<close>, so no \<^verbatim>\<open>except\<close> clause catches it and it leaves \<open>parse\<close>, with
  nothing added to the collector.
\<close>

theorem parse_raises_IndexError:
  "parse [Token int_kw ''int'', Token main ''main'', Token open_paren ''('',
          Token close_paren '')'', Token open_brack ''{'', Token open_paren ''('',
          Token identifier_kind ''x'', Token close_paren '')'', Token semicolon '';'',
          Token close_brack ''}'']
   = (Inl IndexError, [])"
  by (simp add: stmt_defs expr_defs decl_defs)

text \<open>
  C4, as stated, fails: on the tokens \<open>int main ( ) { } ;\<close> the diagnostic
  \<open>unexpected token\<close> is added for the token \<open>;\<close> at index 6, but \<open>parse\<close> returns the
  \<open>Main\<close> node all the same.
\<close>

theorem parse_trailing_token_returns_node:
  "parse [Token int_kw ''int'', Token main ''main'', Token open_paren ''('',
          Token close_paren '')'', Token open_brack ''{'', Token close_brack ''}'',
          Token semicolon '';'']
   = (Inr (Some (MainNode (CompoundNode []))),
      [Some (ParserError ''unexpected token'' 6 AT)])"
  by (simp add: stmt_defs expr_defs decl_defs)

text \<open>
  C4, amended. When \<open>parse_main\<close> succeeds at an index with tokens left, \<open>parse\<close>
  returns the node of \<open>parse_main\<close> and adds exactly one diagnostic, \<open>unexpected token\<close>
  of kind \<open>AT\<close> at that index, whatever the best error is.
\<close>

theorem parse_trailing_tokens:
  assumes "parse_main tokens 0 None = (Inr (node, index), be)" and "index < length tokens"
  shows "parse tokens = (Inr (Some node), [Some (ParserError ''unexpected token'' index AT)])"
  using assms by (simp add: parse_def)

theorem parse_trailing_tokens_witness:
  "parse [Token int_kw ''int'', Token main ''main'', Token open_paren ''('',
          Token close_paren '')'', Token open_brack ''{'', Token return_kw ''return'',
          Token number ''4'', Token semicolon '';'', Token close_brack ''}'',
          Token close_brack ''}'']
   = (Inr (Some (MainNode (CompoundNode
         [ReturnNode (NumberNode (Token number ''4'')) (Token return_kw ''return'')]))),
      [Some (ParserError ''unexpected token'' 9 AT)])"
proof -
  let ?tokens = "[Token int_kw ''int'', Token main ''main'', Token open_paren ''('',
          Token close_paren '')'', Token open_brack ''{'', Token return_kw ''return'',
          Token number ''4'', Token semicolon '';'', Token close_brack ''}'',
          Token close_brack ''}'']"
  have m: "parse_main ?tokens 0 None
        = (Inr (MainNode (CompoundNode
             [ReturnNode (NumberNode (Token number ''4'')) (Token return_kw ''return'')]), 9),
           Some (ParserError ''expected type name'' 8 GOT))"
    by (simp add: stmt_defs expr_defs decl_defs)
  show ?thesis
    using parse_trailing_tokens [OF m] by simp
qed

end
